theory Spec2Isabelle
  imports Main "HOL-Library.Word"
begin

section \<open>The coroutine frame parser of 02.10-coroutineParsingDataStream0\<close>

text \<open>
  The program is a single translation unit, \<^verbatim>\<open>main.cpp\<close>. Two coroutines cooperate:
  \<^verbatim>\<open>sender\<close>, a generator of bytes, and \<^verbatim>\<open>Parse\<close>, which awaits one byte at a time
  and yields a frame. A coroutine is embedded as a record holding its promise, the
  locals that live across a suspension, and the point where it is suspended;
  \<^verbatim>\<open>resume\<close> runs it from that point to the next suspension.
\<close>

subsection \<open>Bytes and characters\<close>

type_synonym byte = "8 word"

text \<open>\<^verbatim>\<open>static const byte ESC{'H'}; static const byte SOF{0x10};\<close>\<close>

definition ESC :: byte where
  "ESC = 0x48"

definition SOF :: byte where
  "SOF = 0x10"

text \<open>\<^verbatim>\<open>static_cast<char>(b)\<close>: the character with the same eight bits.\<close>

definition static_cast_char :: "byte \<Rightarrow> char" where
  "static_cast_char b = char_of (unat b)"

datatype error = AssertionFailed | ResumedWhenDone | NullHandle | IndeterminateValue

subsection \<open>The generator coroutine \<^verbatim>\<open>sender\<close> and its iterator\<close>

text \<open>
  \<^verbatim>\<open>for (const auto &b : fakeBytes) { co_yield b; }\<close> suspends at the initial suspend
  point, at the \<^verbatim>\<open>co_yield\<close> of the element with a given index, and at the final
  suspend point. The promise member \<^verbatim>\<open>T mValue\<close> is not initialised for a byte:
  \<open>None\<close> until the first \<^verbatim>\<open>yield_value\<close>.
\<close>

datatype gen_point = GInitialSuspend | GYield nat | GFinalSuspend

record gen =
  fakeBytes :: "byte list"
  gpoint :: gen_point
  gValue :: "byte option"

definition sender :: "byte list \<Rightarrow> gen" where
  "sender bs = \<lparr>fakeBytes = bs, gpoint = GInitialSuspend, gValue = None\<rparr>"

text \<open>The loop test for the element with index \<open>i\<close>, then \<^verbatim>\<open>co_yield\<close> or the end of the body.\<close>

definition sender_loop :: "nat \<Rightarrow> gen \<Rightarrow> gen" where
  "sender_loop i g =
     (if i < length (fakeBytes g)
      then g\<lparr>gValue := Some (fakeBytes g ! i), gpoint := GYield i\<rparr>
      else g\<lparr>gpoint := GFinalSuspend\<rparr>)"

definition gen_resume :: "gen \<Rightarrow> error + gen" where
  "gen_resume g =
     (case gpoint g of
        GInitialSuspend \<Rightarrow> Inr (sender_loop 0 g)
      | GYield i \<Rightarrow> Inr (sender_loop (Suc i) g)
      | GFinalSuspend \<Rightarrow> Inl ResumedWhenDone)"

definition gen_done :: "gen \<Rightarrow> bool" where
  "gen_done g = (gpoint g = GFinalSuspend)"

text \<open>\<^verbatim>\<open>coro_iterator::iterator\<close>: a handle (\<open>None\<close> is \<^verbatim>\<open>nullptr\<close>) and \<^verbatim>\<open>mDone\<close>.\<close>

record iterator =
  mCoroHdl :: "gen option"
  mDone :: bool

definition it_resume :: "iterator \<Rightarrow> error + iterator" where
  "it_resume it =
     (case mCoroHdl it of
        None \<Rightarrow> Inl NullHandle
      | Some g \<Rightarrow>
          (case gen_resume g of
             Inl e \<Rightarrow> Inl e
           | Inr g' \<Rightarrow> Inr \<lparr>mCoroHdl = Some g', mDone = gen_done g'\<rparr>))"

text \<open>\<^verbatim>\<open>begin()\<close> builds \<^verbatim>\<open>iterator{mCoroHdl}\<close>, whose constructor resumes once;
  \<^verbatim>\<open>end()\<close> is the default iterator.\<close>

definition begin_it :: "gen \<Rightarrow> error + iterator" where
  "begin_it g = it_resume \<lparr>mCoroHdl = Some g, mDone = True\<rparr>"

definition end_it :: iterator where
  "end_it = \<lparr>mCoroHdl = None, mDone = True\<rparr>"

definition it_eq :: "iterator \<Rightarrow> iterator \<Rightarrow> bool" where
  "it_eq a b = (mDone a = mDone b)"

definition it_deref :: "iterator \<Rightarrow> error + byte" where
  "it_deref it =
     (case mCoroHdl it of
        None \<Rightarrow> Inl NullHandle
      | Some g \<Rightarrow> (case gValue g of None \<Rightarrow> Inl IndeterminateValue | Some v \<Rightarrow> Inr v))"

definition it_incr :: "iterator \<Rightarrow> error + iterator" where
  "it_incr it = it_resume it"

text \<open>How far a generator is from its final suspend point.\<close>

definition gen_left :: "gen \<Rightarrow> nat" where
  "gen_left g =
     (case gpoint g of
        GInitialSuspend \<Rightarrow> length (fakeBytes g) + 2
      | GYield i \<Rightarrow> Suc (length (fakeBytes g) - i)
      | GFinalSuspend \<Rightarrow> 0)"

definition it_left :: "iterator \<Rightarrow> nat" where
  "it_left it = (case mCoroHdl it of None \<Rightarrow> 0 | Some g \<Rightarrow> gen_left g)"

text \<open>
  The range-based \<^verbatim>\<open>for (const auto &b : stream) body\<close>, from the iterator that
  \<^verbatim>\<open>begin()\<close> returned: while \<^verbatim>\<open>it != end()\<close>, run the body on \<^verbatim>\<open>*it\<close>, then \<^verbatim>\<open>++it\<close>.
\<close>

function range_for :: "iterator \<Rightarrow> (byte \<Rightarrow> 's \<Rightarrow> error + 's) \<Rightarrow> 's \<Rightarrow> error + (iterator \<times> 's)" where
  "range_for it body s =
     (if it_eq it end_it then Inr (it, s)
      else (case it_deref it of
              Inl e \<Rightarrow> Inl e
            | Inr b \<Rightarrow>
                (case body b s of
                   Inl e \<Rightarrow> Inl e
                 | Inr s' \<Rightarrow>
                     (case it_incr it of
                        Inl e \<Rightarrow> Inl e
                      | Inr it' \<Rightarrow> range_for it' body s'))))"
  by pat_completeness auto
termination
  by (relation "measure (\<lambda>(it, body, s). it_left it)")
     (auto simp: it_incr_def it_resume_def gen_resume_def sender_loop_def it_left_def gen_left_def
        split: option.splits gen_point.splits sum.splits if_splits)

subsection \<open>The parser coroutine \<^verbatim>\<open>Parse\<close>\<close>

text \<open>
  Where \<^verbatim>\<open>Parse\<close> can be suspended: at the initial suspend point, in one of its four
  \<^verbatim>\<open>co_await byte{}\<close> (lines 175, 179, 184, 188), at \<^verbatim>\<open>co_yield frame\<close> (line 191), and
  at the final suspend point, which the endless loop never reaches.
\<close>

datatype suspend_point =
  InitialSuspend | Await175 | Await179 | Await184 | Await188 | Yield191 | FinalSuspend

text \<open>
  The coroutine frame: the suspension point, the local \<^verbatim>\<open>frame\<close>, and the promise
  (\<^verbatim>\<open>mValue\<close> of \<^verbatim>\<open>promise_type_base\<close>, \<^verbatim>\<open>mRecentSignal\<close> of
  \<^verbatim>\<open>awaitable_promise_type_base\<close>).
\<close>

record coro =
  pc :: suspend_point
  frame :: string
  mValue :: string
  mRecentSignal :: "byte option"

definition await_ready :: "coro \<Rightarrow> bool" where
  "await_ready c = (mRecentSignal c \<noteq> None)"

definition await_resume :: "coro \<Rightarrow> error + (byte \<times> coro)" where
  "await_resume c =
     (case mRecentSignal c of
        None \<Rightarrow> Inl AssertionFailed
      | Some tmp \<Rightarrow> Inr (tmp, c\<lparr>mRecentSignal := None\<rparr>))"

definition yield_value :: "string \<Rightarrow> coro \<Rightarrow> coro" where
  "yield_value v c = c\<lparr>mValue := v\<rparr>"

text \<open>
  The local \<^verbatim>\<open>std::string frame\<close> lives from its declaration in line 176 to the end
  of that iteration of the outer loop, which \<^verbatim>\<open>continue\<close> and \<^verbatim>\<open>break\<close> reach too.
  Outside its lifetime the field holds the empty string.
\<close>

definition leave_scope :: "coro \<Rightarrow> coro" where
  "leave_scope c = c\<lparr>frame := []\<rparr>"

text \<open>
  Positions in the body of \<^verbatim>\<open>Parse\<close>: about to evaluate the \<^verbatim>\<open>co_await\<close> of a line,
  or holding the byte that it produced and about to run the statements after it.
\<close>

datatype line = L175 | L176 byte | L179 | L181 byte | L184 | L186 byte | L188 | L190 byte

definition holds_byte :: "line \<Rightarrow> bool" where
  "holds_byte l = (case l of L176 _ \<Rightarrow> True | L181 _ \<Rightarrow> True | L186 _ \<Rightarrow> True | L190 _ \<Rightarrow> True | _ \<Rightarrow> False)"

function Parse_from :: "line \<Rightarrow> coro \<Rightarrow> error + coro" where
  "Parse_from L175 c =
     (if await_ready c
      then (case await_resume c of Inl e \<Rightarrow> Inl e | Inr (b, c') \<Rightarrow> Parse_from (L176 b) c')
      else Inr (c\<lparr>pc := Await175\<rparr>))"
| "Parse_from (L176 b) c =
     (let c = c\<lparr>frame := []\<rparr> in
      if ESC = b then Parse_from L179 c else Parse_from L175 (leave_scope c))"
| "Parse_from L179 c =
     (if await_ready c
      then (case await_resume c of Inl e \<Rightarrow> Inl e | Inr (b, c') \<Rightarrow> Parse_from (L181 b) c')
      else Inr (c\<lparr>pc := Await179\<rparr>))"
| "Parse_from (L181 b) c =
     (if SOF \<noteq> b then Parse_from L175 (leave_scope c) else Parse_from L184 c)"
| "Parse_from L184 c =
     (if await_ready c
      then (case await_resume c of Inl e \<Rightarrow> Inl e | Inr (b, c') \<Rightarrow> Parse_from (L186 b) c')
      else Inr (c\<lparr>pc := Await184\<rparr>))"
| "Parse_from (L186 b) c =
     (if ESC = b then Parse_from L188 c
      else Parse_from L184 (c\<lparr>frame := frame c @ [static_cast_char b]\<rparr>))"
| "Parse_from L188 c =
     (if await_ready c
      then (case await_resume c of Inl e \<Rightarrow> Inl e | Inr (b, c') \<Rightarrow> Parse_from (L190 b) c')
      else Inr (c\<lparr>pc := Await188\<rparr>))"
| "Parse_from (L190 b) c =
     (if SOF = b then Inr ((yield_value (frame c) c)\<lparr>pc := Yield191\<rparr>)
      else if ESC \<noteq> b then Parse_from L175 (leave_scope c)
      else Parse_from L184 (c\<lparr>frame := frame c @ [static_cast_char b]\<rparr>))"
  by pat_completeness auto
termination
  by (relation "measure (\<lambda>(l, c). 2 * (if mRecentSignal c = None then 0 else 1)
                                   + (if holds_byte l then 1 else 0))")
     (auto simp: await_ready_def await_resume_def holds_byte_def leave_scope_def
        split: option.splits)

text \<open>\<^verbatim>\<open>Parse()\<close> creates the coroutine; \<^verbatim>\<open>initial_suspend\<close> is \<^verbatim>\<open>suspend_always\<close>.\<close>

definition Parse :: coro where
  "Parse = \<lparr>pc = InitialSuspend, frame = [], mValue = [], mRecentSignal = None\<rparr>"

text \<open>\<^verbatim>\<open>mCoroHdl.done()\<close>: suspended at the final suspend point.\<close>

definition coro_done :: "coro \<Rightarrow> bool" where
  "coro_done c = (pc c = FinalSuspend)"

text \<open>
  \<^verbatim>\<open>mCoroHdl.resume()\<close>. A coroutine suspended in a \<^verbatim>\<open>co_await\<close> continues with
  \<^verbatim>\<open>await_resume\<close>; one suspended at \<^verbatim>\<open>co_yield\<close> continues with \<^verbatim>\<open>break\<close>, which
  leaves the inner loop and the \<^verbatim>\<open>if\<close>, so the outer loop starts over at line 175.
\<close>

definition resume :: "coro \<Rightarrow> error + coro" where
  "resume c =
     (case pc c of
        InitialSuspend \<Rightarrow> Parse_from L175 c
      | Await175 \<Rightarrow> (case await_resume c of Inl e \<Rightarrow> Inl e | Inr (b, c') \<Rightarrow> Parse_from (L176 b) c')
      | Await179 \<Rightarrow> (case await_resume c of Inl e \<Rightarrow> Inl e | Inr (b, c') \<Rightarrow> Parse_from (L181 b) c')
      | Await184 \<Rightarrow> (case await_resume c of Inl e \<Rightarrow> Inl e | Inr (b, c') \<Rightarrow> Parse_from (L186 b) c')
      | Await188 \<Rightarrow> (case await_resume c of Inl e \<Rightarrow> Inl e | Inr (b, c') \<Rightarrow> Parse_from (L190 b) c')
      | Yield191 \<Rightarrow> Parse_from L175 (leave_scope c)
      | FinalSuspend \<Rightarrow> Inl ResumedWhenDone)"

text \<open>\<^verbatim>\<open>async_generator::SendSignal\<close> and \<^verbatim>\<open>async_generator::operator()\<close>.\<close>

definition SendSignal :: "byte \<Rightarrow> coro \<Rightarrow> error + coro" where
  "SendSignal signal c =
     (let c = c\<lparr>mRecentSignal := Some signal\<rparr> in
      if \<not> coro_done c then resume c else Inr c)"

definition operator_call :: "coro \<Rightarrow> string \<times> coro" where
  "operator_call c = (let tmp = mValue c in (tmp, c\<lparr>mValue := []\<rparr>))"

subsection \<open>The driver\<close>

text \<open>
  What the program does to the outside: \<open>handled\<close> records the argument of every call of
  \<^verbatim>\<open>HandleFrame\<close>, \<open>stdout\<close> the characters that \<^verbatim>\<open>printf("%s\n", frame.c_str())\<close>
  writes (a C string ends at its first zero character).
\<close>

record world =
  handled :: "string list"
  stdout :: string

definition c_str :: "string \<Rightarrow> string" where
  "c_str s = takeWhile (\<lambda>ch. ch \<noteq> CHR 0x00) s"

definition HandleFrame :: "string \<Rightarrow> world \<Rightarrow> world" where
  "HandleFrame fr w = w\<lparr>handled := handled w @ [fr], stdout := stdout w @ c_str fr @ [CHR 0x0A]\<rparr>"

text \<open>The body of the loop of \<^verbatim>\<open>ProcessStream\<close>, on the parser and the world.\<close>

definition ProcessStream_body :: "byte \<Rightarrow> coro \<times> world \<Rightarrow> error + (coro \<times> world)" where
  "ProcessStream_body b s =
     (case SendSignal b (fst s) of
        Inl e \<Rightarrow> Inl e
      | Inr p \<Rightarrow>
          (let (res, p') = operator_call p in
           if length res \<noteq> 0 then Inr (p', HandleFrame res (snd s)) else Inr (p', snd s)))"

text \<open>
  \<^verbatim>\<open>ProcessStream(stream, parse)\<close>. Both arguments are references: the result holds the
  parser and the world as the call leaves them; the stream is left at the iterator's
  last position and is not used again by the caller.
\<close>

definition ProcessStream :: "gen \<Rightarrow> coro \<Rightarrow> world \<Rightarrow> error + (coro \<times> world)" where
  "ProcessStream stream parse w =
     (case begin_it stream of
        Inl e \<Rightarrow> Inl e
      | Inr it \<Rightarrow>
          (case range_for it ProcessStream_body (parse, w) of
             Inl e \<Rightarrow> Inl e
           | Inr (it', s) \<Rightarrow> Inr s))"

definition fakeBytes1 :: "byte list" where
  "fakeBytes1 = [0x70, ESC, SOF, ESC, 0x48, 0x65, 0x6C, 0x6C, 0x6F, ESC, SOF, 0x07, ESC, SOF]"

definition fakeBytes2 :: "byte list" where
  "fakeBytes2 = [0x57, 0x6F, 0x72, 0x6C, 0x64, ESC, SOF, 0x99]"

text \<open>\<^verbatim>\<open>main\<close>, from the world it starts in.\<close>

definition main :: "world \<Rightarrow> error + (coro \<times> world)" where
  "main w =
     (let p = Parse in
      case ProcessStream (sender fakeBytes1) p w of
        Inl e \<Rightarrow> Inl e
      | Inr (p1, w1) \<Rightarrow> ProcessStream (sender fakeBytes2) p1 w1)"

subsection \<open>Notions used to state the properties\<close>

text \<open>A loop body run over a list of bytes, stopping at the first error.\<close>

primrec for_each :: "(byte \<Rightarrow> 's \<Rightarrow> error + 's) \<Rightarrow> byte list \<Rightarrow> 's \<Rightarrow> error + 's" where
  "for_each body [] s = Inr s"
| "for_each body (b # bs) s = (case body b s of Inl e \<Rightarrow> Inl e | Inr s' \<Rightarrow> for_each body bs s')"

text \<open>A generator resumed \<open>n\<close> times in a row.\<close>

primrec resumptions :: "nat \<Rightarrow> gen \<Rightarrow> error + gen" where
  "resumptions 0 g = Inr g"
| "resumptions (Suc n) g = (case resumptions n g of Inl e \<Rightarrow> Inl e | Inr g' \<Rightarrow> gen_resume g')"

text \<open>\<^verbatim>\<open>sender bs\<close> suspended at the \<^verbatim>\<open>co_yield\<close> of element \<open>i\<close>, and at its end.\<close>

definition yielded :: "byte list \<Rightarrow> nat \<Rightarrow> gen" where
  "yielded bs i = \<lparr>fakeBytes = bs, gpoint = GYield i, gValue = Some (bs ! i)\<rparr>"

definition exhausted :: "byte list \<Rightarrow> gen" where
  "exhausted bs = \<lparr>fakeBytes = bs, gpoint = GFinalSuspend,
                    gValue = (if bs = [] then None else Some (last bs))\<rparr>"

text \<open>
  The four states of the specification, read off the suspension point. A parser that
  was just created, or that has just yielded a frame, takes its next byte in line 175,
  as an idle one does.
\<close>

datatype parser_state = Idle | AwaitingSOF | Capturing | CapturingAfterEsc

definition parser_state :: "coro \<Rightarrow> parser_state option" where
  "parser_state c =
     (case pc c of
        InitialSuspend \<Rightarrow> Some Idle
      | Await175 \<Rightarrow> Some Idle
      | Await179 \<Rightarrow> Some AwaitingSOF
      | Await184 \<Rightarrow> Some Capturing
      | Await188 \<Rightarrow> Some CapturingAfterEsc
      | Yield191 \<Rightarrow> Some Idle
      | FinalSuspend \<Rightarrow> None)"

text \<open>A parser suspended at \<open>p\<close> with the frame buffer \<open>fr\<close>, nothing to poll and no pending signal.\<close>

abbreviation suspended :: "suspend_point \<Rightarrow> string \<Rightarrow> coro" where
  "suspended p fr \<equiv> \<lparr>pc = p, frame = fr, mValue = [], mRecentSignal = None\<rparr>"

section \<open>Properties\<close>

subsection \<open>The byte source\<close>

declare range_for.simps [simp del]

lemma for_each_append:
  "for_each body (xs @ ys) s =
     (case for_each body xs s of Inl e \<Rightarrow> Inl e | Inr s' \<Rightarrow> for_each body ys s')"
  by (induction xs arbitrary: s) (auto split: sum.splits)

lemma gen_done_yielded: "\<not> gen_done (yielded bs i)"
  by (simp add: gen_done_def yielded_def)

lemma gen_done_exhausted: "gen_done (exhausted bs)"
  by (simp add: gen_done_def exhausted_def)

lemma gen_resume_sender:
  "gen_resume (sender bs) = Inr (if bs = [] then exhausted bs else yielded bs 0)"
  by (simp add: gen_resume_def sender_def sender_loop_def exhausted_def yielded_def)

lemma gen_resume_yielded:
  "i < length bs \<Longrightarrow>
   gen_resume (yielded bs i) = Inr (if Suc i < length bs then yielded bs (Suc i) else exhausted bs)"
  by (auto simp: gen_resume_def sender_loop_def exhausted_def yielded_def last_conv_nth not_less
      dest: le_antisym)

lemma begin_it_sender:
  "begin_it (sender bs) =
     Inr (if bs = [] then \<lparr>mCoroHdl = Some (exhausted bs), mDone = True\<rparr>
          else \<lparr>mCoroHdl = Some (yielded bs 0), mDone = False\<rparr>)"
  by (simp add: begin_it_def it_resume_def gen_resume_sender gen_done_yielded gen_done_exhausted)

text \<open>
  From the \<^verbatim>\<open>co_yield\<close> of element \<open>i\<close> on, the loop runs its body on the elements from
  \<open>i\<close> to the last one and stops with the generator at its final suspend point.
\<close>

lemma range_for_yielded:
  "i < length bs \<Longrightarrow>
   range_for \<lparr>mCoroHdl = Some (yielded bs i), mDone = False\<rparr> body s =
     (case for_each body (drop i bs) s of
        Inl e \<Rightarrow> Inl e
      | Inr s' \<Rightarrow> Inr (\<lparr>mCoroHdl = Some (exhausted bs), mDone = True\<rparr>, s'))"
proof (induction "length bs - i" arbitrary: i s)
  case 0
  then show ?case by simp
next
  case (Suc n)
  have d: "drop i bs = bs ! i # drop (Suc i) bs"
    using Suc.prems by (simp add: Cons_nth_drop_Suc)
  have deref: "it_deref \<lparr>mCoroHdl = Some (yielded bs i), mDone = False\<rparr> = Inr (bs ! i)"
    by (simp add: it_deref_def yielded_def)
  have incr: "it_incr \<lparr>mCoroHdl = Some (yielded bs i), mDone = False\<rparr> =
      Inr (if Suc i < length bs then \<lparr>mCoroHdl = Some (yielded bs (Suc i)), mDone = False\<rparr>
           else \<lparr>mCoroHdl = Some (exhausted bs), mDone = True\<rparr>)"
    using Suc.prems
    by (simp add: it_incr_def it_resume_def gen_resume_yielded gen_done_yielded gen_done_exhausted)
  show ?case
  proof (cases "body (bs ! i) s")
    case (Inl e)
    then show ?thesis
      by (subst range_for.simps) (simp add: d deref it_eq_def end_it_def)
  next
    case (Inr s')
    show ?thesis
    proof (cases "Suc i < length bs")
      case True
      with Suc.hyps have "n = length bs - Suc i" by simp
      from Suc.hyps(1) [OF this True]
      show ?thesis
        using Inr True
        by (subst range_for.simps) (simp add: d deref incr it_eq_def end_it_def)
    next
      case False
      with Suc.prems have "drop (Suc i) bs = []" by simp
      then show ?thesis
        using Inr False
        apply (subst range_for.simps)
        apply (simp add: d deref incr it_eq_def end_it_def)
        apply (subst range_for.simps)
        apply (simp add: it_eq_def end_it_def)
        done
    qed
  qed
qed

lemma range_for_sender:
  "begin_it (sender bs) = Inr it \<Longrightarrow>
   range_for it body s =
     (case for_each body bs s of
        Inl e \<Rightarrow> Inl e
      | Inr s' \<Rightarrow> Inr (\<lparr>mCoroHdl = Some (exhausted bs), mDone = True\<rparr>, s'))"
proof (cases "bs = []")
  case True
  assume "begin_it (sender bs) = Inr it"
  with True have "it = \<lparr>mCoroHdl = Some (exhausted bs), mDone = True\<rparr>"
    by (simp add: begin_it_sender)
  with True show ?thesis
    by (subst range_for.simps) (simp add: it_eq_def end_it_def)
next
  case False
  assume "begin_it (sender bs) = Inr it"
  with False have "it = \<lparr>mCoroHdl = Some (yielded bs 0), mDone = False\<rparr>"
    by (simp add: begin_it_sender)
  with False show ?thesis
    using range_for_yielded [of 0 bs body s] by simp
qed

lemma ProcessStream_sender:
  "ProcessStream (sender bs) p w = for_each ProcessStream_body bs (p, w)"
proof -
  obtain it where it: "begin_it (sender bs) = Inr it"
    by (simp add: begin_it_sender)
  show ?thesis
    by (simp add: ProcessStream_def it range_for_sender [OF it] split: sum.splits)
qed

lemma resumptions_yielded:
  "k < length bs \<Longrightarrow> resumptions (Suc k) (sender bs) = Inr (yielded bs k)"
proof (induction k)
  case 0
  then show ?case by (auto simp: gen_resume_sender)
next
  case (Suc k)
  then have "resumptions (Suc k) (sender bs) = Inr (yielded bs k)" by simp
  then have "resumptions (Suc (Suc k)) (sender bs) = gen_resume (yielded bs k)"
    by simp
  with Suc.prems show ?case by (simp add: gen_resume_yielded)
qed

lemma resumptions_exhausted:
  "resumptions (Suc (length bs)) (sender bs) = Inr (exhausted bs)"
proof (cases bs rule: rev_cases)
  case Nil
  then show ?thesis by (simp add: gen_resume_sender)
next
  case (snoc xs x)
  then have "resumptions (Suc (length xs)) (sender bs) = Inr (yielded bs (length xs))"
    by (intro resumptions_yielded) simp
  then have "resumptions (Suc (length bs)) (sender bs) = gen_resume (yielded bs (length xs))"
    using snoc by simp
  then show ?thesis using snoc by (simp add: gen_resume_yielded)
qed

subsection \<open>One byte sent to the parser\<close>

lemma ESC_neq_SOF [simp]: "ESC \<noteq> SOF" "SOF \<noteq> ESC"
  by (simp_all add: ESC_def SOF_def)

lemma SendSignal_Idle:
  "parser_state c = Some Idle \<Longrightarrow>
   SendSignal b c = Inr \<lparr>pc = (if b = ESC then Await179 else Await175), frame = [],
                          mValue = mValue c, mRecentSignal = None\<rparr>"
  by (auto simp: parser_state_def SendSignal_def coro_done_def resume_def await_ready_def
      await_resume_def leave_scope_def split: suspend_point.splits)

lemma SendSignal_Await179:
  "pc c = Await179 \<Longrightarrow>
   SendSignal b c = Inr \<lparr>pc = (if b = SOF then Await184 else Await175),
                          frame = (if b = SOF then frame c else []),
                          mValue = mValue c, mRecentSignal = None\<rparr>"
  by (auto simp: SendSignal_def coro_done_def resume_def await_ready_def await_resume_def
      leave_scope_def)

lemma SendSignal_Await184:
  "pc c = Await184 \<Longrightarrow>
   SendSignal b c = Inr \<lparr>pc = (if b = ESC then Await188 else Await184),
                          frame = (if b = ESC then frame c else frame c @ [static_cast_char b]),
                          mValue = mValue c, mRecentSignal = None\<rparr>"
  by (auto simp: SendSignal_def coro_done_def resume_def await_ready_def await_resume_def)

lemma SendSignal_Await188:
  "pc c = Await188 \<Longrightarrow>
   SendSignal b c =
     Inr \<lparr>pc = (if b = SOF then Yield191 else if b = ESC then Await184 else Await175),
          frame = (if b = SOF then frame c
                   else if b = ESC then frame c @ [static_cast_char b] else []),
          mValue = (if b = SOF then frame c else mValue c), mRecentSignal = None\<rparr>"
  by (auto simp: SendSignal_def coro_done_def resume_def await_ready_def await_resume_def
      yield_value_def leave_scope_def)

lemma SendSignal_FinalSuspend:
  "pc c = FinalSuspend \<Longrightarrow> SendSignal b c = Inr (c\<lparr>mRecentSignal := Some b\<rparr>)"
  by (simp add: SendSignal_def coro_done_def)

lemma SendSignal_cases:
  obtains "parser_state c = Some Idle" | "pc c = Await179" | "pc c = Await184"
    | "pc c = Await188" | "pc c = FinalSuspend"
  by (cases "pc c") (simp_all add: parser_state_def)

lemma SendSignal_keeps_mValue:
  "SendSignal b c = Inr c' \<Longrightarrow> pc c' \<noteq> Yield191 \<Longrightarrow> mValue c' = mValue c"
  by (rule SendSignal_cases [of c])
     (auto simp: SendSignal_Idle SendSignal_Await179 SendSignal_Await184 SendSignal_Await188
        SendSignal_FinalSuspend split: if_splits)

subsection \<open>The loop body of the driver, state by state\<close>

lemma parser_state_suspended [simp]:
  "parser_state (suspended Await175 fr) = Some Idle"
  "parser_state (suspended Yield191 fr) = Some Idle"
  "parser_state (suspended Await184 fr) = Some Capturing"
  "parser_state Parse = Some Idle"
  by (simp_all add: parser_state_def Parse_def)

lemma body_Idle:
  "parser_state c = Some Idle \<Longrightarrow> mValue c = [] \<Longrightarrow>
   ProcessStream_body b (c, w) = Inr (suspended (if b = ESC then Await179 else Await175) [], w)"
  by (simp add: ProcessStream_body_def SendSignal_Idle operator_call_def)

lemma body_Await179:
  "ProcessStream_body b (suspended Await179 fr, w) =
     Inr (if b = SOF then suspended Await184 fr else suspended Await175 [], w)"
  by (simp add: ProcessStream_body_def SendSignal_Await179 operator_call_def)

lemma body_Await184:
  "ProcessStream_body b (suspended Await184 fr, w) =
     Inr (if b = ESC then suspended Await188 fr
          else suspended Await184 (fr @ [static_cast_char b]), w)"
  by (simp add: ProcessStream_body_def SendSignal_Await184 operator_call_def)

lemma body_Await188:
  "ProcessStream_body b (suspended Await188 fr, w) =
     Inr (if b = SOF then (suspended Yield191 fr, if fr = [] then w else HandleFrame fr w)
          else if b = ESC then (suspended Await184 (fr @ [static_cast_char b]), w)
          else (suspended Await175 [], w))"
  by (simp add: ProcessStream_body_def SendSignal_Await188 operator_call_def)

subsection \<open>Runs of the driver\<close>

lemma run_Idle:
  "parser_state c = Some Idle \<Longrightarrow> mValue c = [] \<Longrightarrow> ESC \<notin> set bs \<Longrightarrow>
   for_each ProcessStream_body bs (c, w) = Inr (if bs = [] then c else suspended Await175 [], w)"
proof (induction bs arbitrary: c)
  case Nil
  then show ?case by simp
next
  case (Cons b bs)
  from Cons.prems have b: "b \<noteq> ESC" and bs: "ESC \<notin> set bs" by auto
  have "ProcessStream_body b (c, w) = Inr (suspended Await175 [], w)"
    using Cons.prems(1,2) b by (simp add: body_Idle)
  moreover have "for_each ProcessStream_body bs (suspended Await175 [], w) =
      Inr (if bs = [] then suspended Await175 [] else suspended Await175 [], w)"
    by (rule Cons.IH) (simp_all add: bs)
  ultimately show ?case by simp
qed

lemma run_Capturing:
  "ESC \<notin> set ds \<Longrightarrow>
   for_each ProcessStream_body ds (suspended Await184 fr, w) =
     Inr (suspended Await184 (fr @ map static_cast_char ds), w)"
proof (induction ds arbitrary: fr)
  case Nil
  then show ?case by simp
next
  case (Cons d ds)
  then show ?case by (auto simp: body_Await184)
qed

lemma run_open:
  "parser_state c = Some Idle \<Longrightarrow> mValue c = [] \<Longrightarrow>
   for_each ProcessStream_body [ESC, SOF] (c, w) = Inr (suspended Await184 [], w)"
  by (simp add: body_Idle body_Await179)

lemma run_close:
  "for_each ProcessStream_body [ESC, SOF] (suspended Await184 fr, w) =
     Inr (suspended Yield191 fr, if fr = [] then w else HandleFrame fr w)"
  by (simp add: body_Await184 body_Await188)

lemma run_open_data:
  assumes "parser_state c = Some Idle" "mValue c = []" "ESC \<notin> set ds"
  shows "for_each ProcessStream_body ([ESC, SOF] @ ds) (c, w) =
     Inr (suspended Await184 (map static_cast_char ds), w)"
  using run_open [OF assms(1,2)] run_Capturing [OF assms(3), of "[]"]
  by (simp only: for_each_append) simp

lemma run_data_close:
  assumes "ESC \<notin> set ds"
  shows "for_each ProcessStream_body (ds @ [ESC, SOF]) (suspended Await184 fr, w) =
     Inr (suspended Yield191 (fr @ map static_cast_char ds),
          if fr @ map static_cast_char ds = [] then w
          else HandleFrame (fr @ map static_cast_char ds) w)"
  using run_Capturing [OF assms, of fr w] run_close [of "fr @ map static_cast_char ds" w]
  by (simp only: for_each_append) simp

lemma run_frame:
  assumes "parser_state c = Some Idle" "mValue c = []" "ESC \<notin> set ds"
  shows "for_each ProcessStream_body ([ESC, SOF] @ ds @ [ESC, SOF]) (c, w) =
     Inr (suspended Yield191 (map static_cast_char ds),
          if ds = [] then w else HandleFrame (map static_cast_char ds) w)"
proof -
  have "for_each ProcessStream_body ([ESC, SOF] @ ds @ [ESC, SOF]) (c, w) =
      for_each ProcessStream_body (ds @ [ESC, SOF]) (suspended Await184 [], w)"
    using run_open [OF assms(1,2), of w] by (simp only: for_each_append) simp
  then show ?thesis
    using run_data_close [OF assms(3), of "[]" w] by simp
qed

section \<open>The claims\<close>

text \<open>
  C1. The worked example of \<^verbatim>\<open>main\<close>. A freshly created parser, fed the first stream
  (0x70, ESC, SOF, ESC, 'H', 'e', 'l', 'l', 'o', ESC, SOF, 0x07, ESC, SOF), hands
  exactly one frame to the handler, the text "Hello"; fed the second stream
  ('W', 'o', 'r', 'l', 'd', ESC, SOF, 0x99) afterwards, the same parser hands over exactly
  one more frame, the text "World".
\<close>

theorem worked_example:
  "ProcessStream (sender fakeBytes1) Parse \<lparr>handled = [], stdout = []\<rparr> =
     Inr (suspended Await184 [], \<lparr>handled = [''Hello''], stdout = ''Hello\<newline>''\<rparr>)
   \<and> ProcessStream (sender fakeBytes2) (suspended Await184 [])
        \<lparr>handled = [''Hello''], stdout = ''Hello\<newline>''\<rparr> =
     Inr (suspended Await175 [],
          \<lparr>handled = [''Hello'', ''World''], stdout = ''Hello\<newline>World\<newline>''\<rparr>)
   \<and> main \<lparr>handled = [], stdout = []\<rparr> =
     Inr (suspended Await175 [],
          \<lparr>handled = [''Hello'', ''World''], stdout = ''Hello\<newline>World\<newline>''\<rparr>)"
  by code_simp

text \<open>
  C2, as the code has it. In CapturingAfterEsc (suspended in line 188), a second ESC
  is the escaped form of a data byte ESC: line 198 appends one ESC to the frame buffer
  and the parser is Capturing again (suspended in line 184). The byte after the second
  ESC is therefore read as an ordinary byte of the frame: unless it is ESC, it is
  appended too, also when it is SOF.
\<close>

theorem escaped_ESC_is_data:
  assumes "parser_state c = Some CapturingAfterEsc"
  shows "\<exists>c'. SendSignal ESC c = Inr c'
           \<and> parser_state c' = Some Capturing
           \<and> frame c' = frame c @ [static_cast_char ESC]
           \<and> mValue c' = mValue c
           \<and> (\<forall>b. b \<noteq> ESC \<longrightarrow>
                (\<exists>c''. SendSignal b c' = Inr c''
                   \<and> parser_state c'' = Some Capturing
                   \<and> frame c'' = frame c @ [static_cast_char ESC, static_cast_char b]
                   \<and> mValue c'' = mValue c))"
proof -
  from assms have pc: "pc c = Await188"
    by (simp add: parser_state_def split: suspend_point.splits)
  define c' where "c' = \<lparr>pc = Await184, frame = frame c @ [static_cast_char ESC],
                           mValue = mValue c, mRecentSignal = None\<rparr>"
  have step: "SendSignal ESC c = Inr c'"
    using pc by (simp add: SendSignal_Await188 c'_def)
  have "pc c' = Await184" by (simp add: c'_def)
  then have next_byte: "b \<noteq> ESC \<Longrightarrow>
      SendSignal b c' = Inr \<lparr>pc = Await184, frame = frame c' @ [static_cast_char b],
                              mValue = mValue c', mRecentSignal = None\<rparr>" for b
    by (simp add: SendSignal_Await184)
  show ?thesis
    using step next_byte by (intro exI [of _ c']) (simp add: c'_def parser_state_def)
qed

theorem escaped_ESC_is_data_witness:
  "parser_state (suspended Await188 ''a'') = Some CapturingAfterEsc
   \<and> (\<exists>c'. SendSignal ESC (suspended Await188 ''a'') = Inr c'
           \<and> parser_state c' = Some Capturing
           \<and> frame c' = ''aH'')"
proof -
  have h: "parser_state (suspended Await188 ''a'') = Some CapturingAfterEsc"
    by (simp add: parser_state_def)
  have "static_cast_char ESC = CHR ''H''"
    by code_simp
  with escaped_ESC_is_data [OF h] h show ?thesis
    by auto
qed

text \<open>
  C2 as the specification words it fails: after ESC, SOF, 'a', ESC the parser is in
  CapturingAfterEsc with the buffer "a"; a second ESC leaves it Capturing, with the
  buffer "aH" (ESC is the byte 'H').
\<close>

theorem second_ESC_counterexample:
  "parser_state (suspended Await188 ''a'') = Some CapturingAfterEsc
   \<and> SendSignal ESC (suspended Await188 ''a'') = Inr (suspended Await184 ''aH'')
   \<and> parser_state (suspended Await184 ''aH'') \<noteq> Some CapturingAfterEsc
   \<and> ProcessStream (sender [ESC, SOF, 0x61, ESC, ESC, SOF]) Parse \<lparr>handled = [], stdout = []\<rparr> =
       Inr (suspended Await184 [CHR ''a'', CHR ''H'', CHR 0x10], \<lparr>handled = [], stdout = []\<rparr>)"
  by code_simp

text \<open>
  C3, as the code has it. For every sequence ESC, SOF, d1, ..., dn, ESC, SOF with at
  least one data byte, none of them ESC or SOF, fed to a parser in the Idle state with
  nothing left to poll, the handler is called exactly once, with the frame d1 ... dn,
  and the parser is ready for the next frame.
\<close>

theorem frame_emitted:
  assumes "parser_state c = Some Idle" and "mValue c = []"
    and "\<forall>d\<in>set ds. d \<noteq> ESC \<and> d \<noteq> SOF" and "ds \<noteq> []"
  shows "\<exists>c' w'. ProcessStream (sender ([ESC, SOF] @ ds @ [ESC, SOF])) c w = Inr (c', w')
           \<and> w' = HandleFrame (map static_cast_char ds) w
           \<and> handled w' = handled w @ [map static_cast_char ds]
           \<and> parser_state c' = Some Idle \<and> mValue c' = []"
proof -
  from assms(3) have "ESC \<notin> set ds" by auto
  from run_frame [OF assms(1,2) this, of w] assms(4)
  show ?thesis
    by (simp add: ProcessStream_sender HandleFrame_def)
qed

theorem frame_emitted_witness:
  "parser_state Parse = Some Idle \<and> mValue Parse = []
   \<and> (0x61 :: byte) \<noteq> ESC \<and> (0x61 :: byte) \<noteq> SOF
   \<and> (0x62 :: byte) \<noteq> ESC \<and> (0x62 :: byte) \<noteq> SOF \<and> [0x61, 0x62 :: byte] \<noteq> []
   \<and> (\<exists>c' w'. ProcessStream (sender ([ESC, SOF] @ [0x61, 0x62] @ [ESC, SOF])) Parse
                  \<lparr>handled = [], stdout = []\<rparr> = Inr (c', w')
           \<and> handled w' = [''ab''])"
proof -
  have h1: "parser_state Parse = Some Idle" and h2: "mValue Parse = []"
    by (simp_all add: Parse_def parser_state_def)
  have h3: "\<forall>d\<in>set [0x61, 0x62 :: byte]. d \<noteq> ESC \<and> d \<noteq> SOF"
    by (simp add: ESC_def SOF_def)
  have h4: "[0x61, 0x62 :: byte] \<noteq> []" by simp
  have ab: "map static_cast_char [0x61, 0x62] = ''ab''"
    by code_simp
  from frame_emitted [OF h1 h2 h3 h4, of "\<lparr>handled = [], stdout = []\<rparr>"]
  obtain c' w' where
    a: "ProcessStream (sender ([ESC, SOF] @ [0x61, 0x62] @ [ESC, SOF])) Parse
          \<lparr>handled = [], stdout = []\<rparr> = Inr (c', w')" and
    b: "handled w' = handled \<lparr>handled = [], stdout = []\<rparr> @ [map static_cast_char [0x61, 0x62]]"
    by blast
  from b have "handled w' = [''ab'']"
    by (simp only: ab) simp
  with a h1 h2 h3 h4 show ?thesis by auto
qed

text \<open>
  C3 as the specification words it fails for n = 0: fed ESC, SOF, ESC, SOF, a fresh
  parser reaches \<^verbatim>\<open>co_yield\<close> with the empty frame, and the handler is not called.
\<close>

theorem empty_frame_counterexample:
  "ProcessStream (sender ([ESC, SOF] @ [] @ [ESC, SOF])) Parse \<lparr>handled = [], stdout = []\<rparr> =
     Inr (suspended Yield191 [], \<lparr>handled = [], stdout = []\<rparr>)"
  by code_simp

text \<open>
  C4, as the code has it. Let d2 be a byte other than ESC and X a byte that is
  neither SOF nor ESC. The sequence ESC, SOF, d1, d2, ESC, X fed to an Idle parser
  calls the handler for no frame, raises no error, and leaves the parser Idle with the
  buffer discarded. A well-formed sequence ESC, SOF, data, ESC, SOF sent next is
  handed over exactly once and unchanged when it carries at least one data byte; with
  no data byte nothing is handed over.
\<close>

theorem out_of_sync_discards:
  assumes "parser_state c = Some Idle" and "mValue c = []"
    and "d2 \<noteq> ESC" and "X \<noteq> SOF" and "X \<noteq> ESC"
  shows "\<exists>c'. ProcessStream (sender [ESC, SOF, d1, d2, ESC, X]) c w = Inr (c', w)
           \<and> parser_state c' = Some Idle \<and> frame c' = [] \<and> mValue c' = []
           \<and> (\<forall>ds. (\<forall>d\<in>set ds. d \<noteq> ESC \<and> d \<noteq> SOF) \<longrightarrow>
                (\<exists>c''. ProcessStream (sender ([ESC, SOF] @ ds @ [ESC, SOF])) c' w =
                          Inr (c'', if ds = [] then w
                                    else HandleFrame (map static_cast_char ds) w)))"
proof -
  have first: "ProcessStream (sender [ESC, SOF, d1, d2, ESC, X]) c w =
      Inr (suspended Await175 [], w)"
  proof (cases "d1 = ESC")
    case False
    with assms show ?thesis
      by (simp add: ProcessStream_sender body_Idle body_Await179 body_Await184 body_Await188)
  next
    case True
    with assms show ?thesis
      by (simp add: ProcessStream_sender body_Idle body_Await179 body_Await184 body_Await188)
  qed
  have "ProcessStream (sender ([ESC, SOF] @ ds @ [ESC, SOF])) (suspended Await175 []) w =
      Inr (suspended Yield191 (map static_cast_char ds),
           if ds = [] then w else HandleFrame (map static_cast_char ds) w)"
    if "\<forall>d\<in>set ds. d \<noteq> ESC \<and> d \<noteq> SOF" for ds
  proof -
    from that have "ESC \<notin> set ds" by auto
    from run_frame [OF _ _ this, of "suspended Await175 []" w]
    show ?thesis by (simp add: ProcessStream_sender)
  qed
  with first show ?thesis by auto
qed

theorem out_of_sync_discards_witness:
  "parser_state Parse = Some Idle \<and> mValue Parse = []
   \<and> (0x62 :: byte) \<noteq> ESC \<and> (0x07 :: byte) \<noteq> SOF \<and> (0x07 :: byte) \<noteq> ESC
   \<and> (\<exists>c'. ProcessStream (sender [ESC, SOF, 0x61, 0x62, ESC, 0x07]) Parse
               \<lparr>handled = [], stdout = []\<rparr> = Inr (c', \<lparr>handled = [], stdout = []\<rparr>)
           \<and> parser_state c' = Some Idle \<and> frame c' = [] \<and> mValue c' = [])"
proof -
  have h1: "parser_state Parse = Some Idle" and h2: "mValue Parse = []"
    by (simp_all add: Parse_def parser_state_def)
  have h4: "(0x62 :: byte) \<noteq> ESC"
    and h5: "(0x07 :: byte) \<noteq> SOF" and h6: "(0x07 :: byte) \<noteq> ESC"
    by (simp_all add: ESC_def SOF_def)
  from out_of_sync_discards [OF h1 h2 h4 h5 h6, of "0x61" "\<lparr>handled = [], stdout = []\<rparr>"]
    h1 h2 h4 h5 h6
  show ?thesis by blast
qed

text \<open>
  C4 as the specification words it fails twice. With d2 = ESC the fifth byte is the
  escaped form of a data byte: after ESC, SOF, 'a', ESC, ESC, 0x07 the parser is still
  Capturing, with the buffer 'a', 'H', 0x07. And after ESC, SOF, 'a', 'b', ESC, 0x07
  the parser is Idle, but the well-formed sequence ESC, SOF, ESC, SOF that follows
  ends at \<^verbatim>\<open>co_yield\<close> with the empty frame and the handler is not called.
\<close>

theorem out_of_sync_counterexample:
  "ProcessStream (sender [ESC, SOF, 0x61, ESC, ESC, 0x07]) Parse \<lparr>handled = [], stdout = []\<rparr> =
     Inr (suspended Await184 [CHR ''a'', CHR ''H'', CHR 0x07], \<lparr>handled = [], stdout = []\<rparr>)
   \<and> parser_state (suspended Await184 [CHR ''a'', CHR ''H'', CHR 0x07]) \<noteq> Some Idle
   \<and> ProcessStream (sender [ESC, SOF, 0x61, 0x62, ESC, 0x07]) Parse \<lparr>handled = [], stdout = []\<rparr> =
     Inr (suspended Await175 [], \<lparr>handled = [], stdout = []\<rparr>)
   \<and> ProcessStream (sender [ESC, SOF, ESC, SOF]) (suspended Await175 [])
        \<lparr>handled = [], stdout = []\<rparr> =
     Inr (suspended Yield191 [], \<lparr>handled = [], stdout = []\<rparr>)"
  by code_simp

text \<open>
  C5, as the code has it. The parser outlives its byte sources. Two sources drained
  one after the other into the same parser act as one source with the bytes of both.
  In particular, when a first source ends inside a frame, after ESC, SOF and the data
  bytes \<open>d1\<close>, the parser stays Capturing with \<open>d1\<close> in its buffer, and a second source
  that brings the data bytes \<open>d2\<close> and the closing ESC, SOF completes that same frame,
  \<open>d1\<close> followed by \<open>d2\<close>: the handler is called exactly once with it when it holds at
  least one byte, and not at all when it is empty.
\<close>

theorem state_persists_across_sources:
  assumes "parser_state c = Some Idle" and "mValue c = []"
    and "ESC \<notin> set d1" and "ESC \<notin> set d2"
  shows "(\<forall>A B p v. ProcessStream (sender (A @ B)) p v =
            (case ProcessStream (sender A) p v of
               Inl e \<Rightarrow> Inl e
             | Inr (p1, v1) \<Rightarrow> ProcessStream (sender B) p1 v1))
         \<and> (\<exists>c1 c2 w2.
               ProcessStream (sender ([ESC, SOF] @ d1)) c w = Inr (c1, w)
             \<and> parser_state c1 = Some Capturing \<and> frame c1 = map static_cast_char d1
             \<and> ProcessStream (sender (d2 @ [ESC, SOF])) c1 w = Inr (c2, w2)
             \<and> pc c2 = Yield191 \<and> frame c2 = map static_cast_char (d1 @ d2)
             \<and> w2 = (if d1 @ d2 = [] then w
                      else HandleFrame (map static_cast_char (d1 @ d2)) w)
             \<and> handled w2 = handled w @ (if d1 @ d2 = [] then []
                                           else [map static_cast_char (d1 @ d2)]))"
proof
  show "\<forall>A B p v. ProcessStream (sender (A @ B)) p v =
            (case ProcessStream (sender A) p v of
               Inl e \<Rightarrow> Inl e
             | Inr (p1, v1) \<Rightarrow> ProcessStream (sender B) p1 v1)"
    by (auto simp: ProcessStream_sender for_each_append split: sum.splits)
next
  have A: "ProcessStream (sender ([ESC, SOF] @ d1)) c w =
      Inr (suspended Await184 (map static_cast_char d1), w)"
    using run_open_data [OF assms(1,2,3), of w] by (simp add: ProcessStream_sender)
  have B: "ProcessStream (sender (d2 @ [ESC, SOF])) (suspended Await184 (map static_cast_char d1)) w =
      Inr (suspended Yield191 (map static_cast_char (d1 @ d2)),
           if d1 @ d2 = [] then w else HandleFrame (map static_cast_char (d1 @ d2)) w)"
    using run_data_close [OF assms(4), of "map static_cast_char d1" w]
    by (auto simp: ProcessStream_sender)
  show "\<exists>c1 c2 w2.
               ProcessStream (sender ([ESC, SOF] @ d1)) c w = Inr (c1, w)
             \<and> parser_state c1 = Some Capturing \<and> frame c1 = map static_cast_char d1
             \<and> ProcessStream (sender (d2 @ [ESC, SOF])) c1 w = Inr (c2, w2)
             \<and> pc c2 = Yield191 \<and> frame c2 = map static_cast_char (d1 @ d2)
             \<and> w2 = (if d1 @ d2 = [] then w
                      else HandleFrame (map static_cast_char (d1 @ d2)) w)
             \<and> handled w2 = handled w @ (if d1 @ d2 = [] then []
                                           else [map static_cast_char (d1 @ d2)])"
    using A B by (simp add: HandleFrame_def)
qed

theorem state_persists_across_sources_witness:
  "parser_state Parse = Some Idle \<and> mValue Parse = []
   \<and> ESC \<notin> set [0x61 :: byte] \<and> ESC \<notin> set [0x62 :: byte]
   \<and> (\<exists>c1 c2 w2.
         ProcessStream (sender ([ESC, SOF] @ [0x61])) Parse \<lparr>handled = [], stdout = []\<rparr> =
           Inr (c1, \<lparr>handled = [], stdout = []\<rparr>)
       \<and> parser_state c1 = Some Capturing
       \<and> ProcessStream (sender ([0x62] @ [ESC, SOF])) c1 \<lparr>handled = [], stdout = []\<rparr> = Inr (c2, w2)
       \<and> handled w2 = [''ab''])"
proof -
  have h1: "parser_state Parse = Some Idle" and h2: "mValue Parse = []"
    by (simp_all add: Parse_def parser_state_def)
  have h3: "ESC \<notin> set [0x61 :: byte]" and h4: "ESC \<notin> set [0x62 :: byte]"
    by (simp_all add: ESC_def)
  have ab: "map static_cast_char ([0x61] @ [0x62]) = ''ab''"
    by code_simp
  from state_persists_across_sources
         [OF h1 h2 h3 h4, of "\<lparr>handled = [], stdout = []\<rparr>", THEN conjunct2]
  obtain c1 c2 w2 where
    a: "ProcessStream (sender ([ESC, SOF] @ [0x61])) Parse \<lparr>handled = [], stdout = []\<rparr> =
          Inr (c1, \<lparr>handled = [], stdout = []\<rparr>)" and
    b: "parser_state c1 = Some Capturing" and
    c: "ProcessStream (sender ([0x62] @ [ESC, SOF])) c1 \<lparr>handled = [], stdout = []\<rparr> =
          Inr (c2, w2)" and
    d: "handled w2 = handled \<lparr>handled = [], stdout = []\<rparr>
          @ (if [0x61 :: byte] @ [0x62] = [] then []
             else [map static_cast_char ([0x61] @ [0x62])])"
    by blast
  from d have "handled w2 = [''ab'']"
    by (simp only: ab) simp
  with a b c h1 h2 h3 h4 show ?thesis by blast
qed

text \<open>
  C5 as the specification words it fails when the frame is empty: a first source ESC,
  SOF leaves a fresh parser Capturing with an empty buffer, a second source ESC, SOF
  completes that frame at \<^verbatim>\<open>co_yield\<close>, and the handler is called for neither.
\<close>

theorem two_sources_counterexample:
  "ProcessStream (sender [ESC, SOF]) Parse \<lparr>handled = [], stdout = []\<rparr> =
     Inr (suspended Await184 [], \<lparr>handled = [], stdout = []\<rparr>)
   \<and> ProcessStream (sender [ESC, SOF]) (suspended Await184 []) \<lparr>handled = [], stdout = []\<rparr> =
     Inr (suspended Yield191 [], \<lparr>handled = [], stdout = []\<rparr>)"
  by code_simp

text \<open>
  C6. \<^verbatim>\<open>operator()\<close> returns what the last \<^verbatim>\<open>co_yield\<close> stored and leaves the empty
  string behind. A second call right after the first returns the empty string and
  changes nothing; so does a call after a byte that did not bring the parser to
  \<^verbatim>\<open>co_yield\<close>. A completed frame is therefore returned at most once.
\<close>

theorem poll_idempotent:
  "operator_call (snd (operator_call c)) = ([], snd (operator_call c))
   \<and> (\<forall>b c'. SendSignal b (snd (operator_call c)) = Inr c' \<and> pc c' \<noteq> Yield191 \<longrightarrow>
          fst (operator_call c') = [])"
proof
  show "operator_call (snd (operator_call c)) = ([], snd (operator_call c))"
    by (simp add: operator_call_def)
next
  have "mValue (snd (operator_call c)) = []"
    by (simp add: operator_call_def)
  then show "\<forall>b c'. SendSignal b (snd (operator_call c)) = Inr c' \<and> pc c' \<noteq> Yield191 \<longrightarrow>
          fst (operator_call c') = []"
    by (auto simp: operator_call_def [of "c'" for c'] dest: SendSignal_keeps_mValue)
qed

theorem poll_idempotent_witness:
  "fst (operator_call \<lparr>pc = Yield191, frame = ''ab'', mValue = ''ab'', mRecentSignal = None\<rparr>) = ''ab''
   \<and> SendSignal 0x07
        (snd (operator_call \<lparr>pc = Yield191, frame = ''ab'', mValue = ''ab'', mRecentSignal = None\<rparr>)) =
      Inr (suspended Await175 [])
   \<and> pc (suspended Await175 []) \<noteq> Yield191
   \<and> fst (operator_call (suspended Await175 [])) = []"
proof -
  let ?c = "\<lparr>pc = Yield191, frame = ''ab'', mValue = ''ab'', mRecentSignal = None\<rparr>"
  have a: "fst (operator_call ?c) = ''ab''"
    by (simp add: operator_call_def)
  have b: "SendSignal 0x07 (snd (operator_call ?c)) = Inr (suspended Await175 [])"
    by code_simp
  have c: "pc (suspended Await175 []) \<noteq> Yield191" by simp
  from poll_idempotent [of ?c] b c have "fst (operator_call (suspended Await175 [])) = []"
    by blast
  with a b c show ?thesis by blast
qed

text \<open>
  C7. A stream without ESC and without SOF, fed to an Idle parser with nothing left to
  poll, calls the handler for no frame and leaves the parser Idle.
\<close>

theorem idle_discards:
  assumes "parser_state c = Some Idle" and "mValue c = []"
    and "\<forall>b\<in>set bs. b \<noteq> ESC \<and> b \<noteq> SOF"
  shows "\<exists>c'. ProcessStream (sender bs) c w = Inr (c', w)
           \<and> parser_state c' = Some Idle \<and> mValue c' = []"
proof -
  from assms(3) have "ESC \<notin> set bs" by auto
  from run_Idle [OF assms(1,2) this, of w] assms(1,2)
  show ?thesis
    by (cases "bs = []") (simp_all add: ProcessStream_sender)
qed

theorem idle_discards_witness:
  "parser_state Parse = Some Idle \<and> mValue Parse = []
   \<and> (0x70 :: byte) \<noteq> ESC \<and> (0x70 :: byte) \<noteq> SOF
   \<and> (0x99 :: byte) \<noteq> ESC \<and> (0x99 :: byte) \<noteq> SOF
   \<and> (\<exists>c'. ProcessStream (sender [0x70, 0x99]) Parse \<lparr>handled = [], stdout = []\<rparr> =
              Inr (c', \<lparr>handled = [], stdout = []\<rparr>)
           \<and> parser_state c' = Some Idle \<and> mValue c' = [])"
proof -
  have h1: "parser_state Parse = Some Idle" and h2: "mValue Parse = []"
    by (simp_all add: Parse_def parser_state_def)
  have h3: "\<forall>b\<in>set [0x70, 0x99 :: byte]. b \<noteq> ESC \<and> b \<noteq> SOF"
    by (simp add: ESC_def SOF_def)
  from idle_discards [OF h1 h2 h3, of "\<lparr>handled = [], stdout = []\<rparr>"] h1 h2 h3
  show ?thesis by auto
qed

text \<open>
  C8. The range-based loop over \<^verbatim>\<open>sender bs\<close> sees exactly the bytes of \<open>bs\<close>, in
  their order, and ends with the iterator done and the generator at its final suspend
  point. Resumption by resumption: after \<open>k + 1\<close> resumptions the generator is not done
  and holds element \<open>k\<close>; the resumption after the last element finds it done.
\<close>

theorem sender_produces_sequence:
  "(\<exists>it. begin_it (sender bs) = Inr it
        \<and> range_for it (\<lambda>b acc. Inr (acc @ [b])) [] =
            Inr (\<lparr>mCoroHdl = Some (exhausted bs), mDone = True\<rparr>, bs))
   \<and> (\<forall>k<length bs. \<exists>g. resumptions (Suc k) (sender bs) = Inr g
          \<and> \<not> gen_done g \<and> gValue g = Some (bs ! k))
   \<and> (\<exists>g. resumptions (Suc (length bs)) (sender bs) = Inr g \<and> gen_done g)"
proof (intro conjI)
  have collect: "for_each (\<lambda>b acc. Inr (acc @ [b])) xs acc = Inr (acc @ xs)"
    for xs acc :: "byte list"
    by (induction xs arbitrary: acc) simp_all
  obtain it where it: "begin_it (sender bs) = Inr it"
    by (simp add: begin_it_sender)
  from range_for_sender [OF it, of "\<lambda>b acc. Inr (acc @ [b])" "[]"]
  have "range_for it (\<lambda>b acc. Inr (acc @ [b])) [] =
      Inr (\<lparr>mCoroHdl = Some (exhausted bs), mDone = True\<rparr>, bs)"
    by (simp add: collect)
  with it show "\<exists>it. begin_it (sender bs) = Inr it
        \<and> range_for it (\<lambda>b acc. Inr (acc @ [b])) [] =
            Inr (\<lparr>mCoroHdl = Some (exhausted bs), mDone = True\<rparr>, bs)"
    by blast
next
  show "\<forall>k<length bs. \<exists>g. resumptions (Suc k) (sender bs) = Inr g
          \<and> \<not> gen_done g \<and> gValue g = Some (bs ! k)"
  proof (intro allI impI)
    fix k
    assume "k < length bs"
    then have "resumptions (Suc k) (sender bs) = Inr (yielded bs k)"
      by (rule resumptions_yielded)
    moreover have "\<not> gen_done (yielded bs k)"
      by (rule gen_done_yielded)
    moreover have "gValue (yielded bs k) = Some (bs ! k)"
      by (simp add: yielded_def)
    ultimately show "\<exists>g. resumptions (Suc k) (sender bs) = Inr g
          \<and> \<not> gen_done g \<and> gValue g = Some (bs ! k)"
      by blast
  qed
next
  show "\<exists>g. resumptions (Suc (length bs)) (sender bs) = Inr g \<and> gen_done g"
    using resumptions_exhausted [of bs] gen_done_exhausted [of bs] by blast
qed

theorem sender_produces_sequence_witness:
  "(1 :: nat) < length [0x57, 0x6F :: byte]
   \<and> (\<exists>g. resumptions (Suc 1) (sender [0x57, 0x6F]) = Inr g
          \<and> \<not> gen_done g \<and> gValue g = Some 0x6F)"
proof -
  have h: "(1 :: nat) < length [0x57, 0x6F :: byte]" by simp
  from sender_produces_sequence [of "[0x57, 0x6F]"]
  have "\<forall>k<length [0x57, 0x6F :: byte]. \<exists>g. resumptions (Suc k) (sender [0x57, 0x6F]) = Inr g
          \<and> \<not> gen_done g \<and> gValue g = Some ([0x57, 0x6F] ! k)"
    by blast
  from this [rule_format, OF h] h show ?thesis by simp
qed

text \<open>
  C9. On a parser whose coroutine is not finished, \<^verbatim>\<open>SendSignal\<close> returns without an
  error, with the parser suspended again and the slot \<^verbatim>\<open>mRecentSignal\<close> empty. The byte
  it stored is the one the parser consumed: whatever the slot held before is
  overwritten, and the parser has made, from the state it was in, the one step that
  this byte asks for.
\<close>

theorem SendSignal_consumes:
  assumes "\<not> coro_done c"
  shows "\<exists>c'. SendSignal b c = Inr c' \<and> mRecentSignal c' = None \<and> \<not> coro_done c'
           \<and> SendSignal b (c\<lparr>mRecentSignal := old\<rparr>) = Inr c'
           \<and> (parser_state c = Some Idle \<longrightarrow>
                pc c' = (if b = ESC then Await179 else Await175)
                \<and> frame c' = [] \<and> mValue c' = mValue c)
           \<and> (parser_state c = Some AwaitingSOF \<longrightarrow>
                pc c' = (if b = SOF then Await184 else Await175)
                \<and> frame c' = (if b = SOF then frame c else []) \<and> mValue c' = mValue c)
           \<and> (parser_state c = Some Capturing \<longrightarrow>
                pc c' = (if b = ESC then Await188 else Await184)
                \<and> frame c' = (if b = ESC then frame c else frame c @ [static_cast_char b])
                \<and> mValue c' = mValue c)
           \<and> (parser_state c = Some CapturingAfterEsc \<longrightarrow>
                pc c' = (if b = SOF then Yield191 else if b = ESC then Await184 else Await175)
                \<and> frame c' = (if b = SOF then frame c
                              else if b = ESC then frame c @ [static_cast_char b] else [])
                \<and> mValue c' = (if b = SOF then frame c else mValue c))"
proof -
  have over: "SendSignal b (c\<lparr>mRecentSignal := old\<rparr>) = SendSignal b c"
    by (simp add: SendSignal_def)
  show ?thesis
  proof (rule SendSignal_cases [of c])
    assume "parser_state c = Some Idle"
    then show ?thesis
      by (simp add: over SendSignal_Idle coro_done_def)
  next
    assume "pc c = Await179"
    then show ?thesis
      by (simp add: over SendSignal_Await179 coro_done_def parser_state_def)
  next
    assume "pc c = Await184"
    then show ?thesis
      by (simp add: over SendSignal_Await184 coro_done_def parser_state_def)
  next
    assume "pc c = Await188"
    then show ?thesis
      by (simp add: over SendSignal_Await188 coro_done_def parser_state_def)
  next
    assume "pc c = FinalSuspend"
    with assms show ?thesis by (simp add: coro_done_def)
  qed
qed

theorem SendSignal_consumes_witness:
  "\<not> coro_done (suspended Await184 ''a'')
   \<and> parser_state (suspended Await184 ''a'') = Some Capturing
   \<and> (\<exists>c'. SendSignal 0x62 (suspended Await184 ''a'') = Inr c'
          \<and> SendSignal 0x62 \<lparr>pc = Await184, frame = ''a'', mValue = [], mRecentSignal = Some 0x07\<rparr>
              = Inr c'
          \<and> mRecentSignal c' = None \<and> \<not> coro_done c'
          \<and> pc c' = Await184 \<and> frame c' = ''ab'' \<and> mValue c' = [])"
proof -
  have h: "\<not> coro_done (suspended Await184 ''a'')"
    by (simp add: coro_done_def)
  have s: "parser_state (suspended Await184 ''a'') = Some Capturing"
    by simp
  have b: "(0x62 :: byte) \<noteq> ESC"
    by (simp add: ESC_def)
  have ch: "static_cast_char 0x62 = CHR ''b''"
    by code_simp
  from SendSignal_consumes [OF h, of "0x62" "Some 0x07"]
  obtain c' where
    1: "SendSignal 0x62 (suspended Await184 ''a'') = Inr c'" and
    2: "mRecentSignal c' = None" and 3: "\<not> coro_done c'" and
    4: "SendSignal 0x62 ((suspended Await184 ''a'')\<lparr>mRecentSignal := Some 0x07\<rparr>) = Inr c'" and
    5: "parser_state (suspended Await184 ''a'') = Some Capturing \<longrightarrow>
          pc c' = (if (0x62 :: byte) = ESC then Await188 else Await184)
          \<and> frame c' = (if (0x62 :: byte) = ESC then frame (suspended Await184 ''a'')
                        else frame (suspended Await184 ''a'') @ [static_cast_char 0x62])
          \<and> mValue c' = mValue (suspended Await184 ''a'')"
    by blast
  from 5 s b have "pc c' = Await184 \<and> frame c' = ''ab'' \<and> mValue c' = []"
    by (simp add: ch)
  with 1 2 3 4 h s show ?thesis by auto
qed

text \<open>
  C10. ESC, SOF, ESC, SOF fed to an Idle parser brings it to \<^verbatim>\<open>co_yield\<close> with the empty
  frame. \<^verbatim>\<open>operator()\<close> then returns the empty string, as it does one byte earlier when
  no frame is complete, so the driver does not call the handler.
\<close>

theorem empty_frame_not_dispatched:
  assumes "parser_state c = Some Idle" and "mValue c = []"
  shows "ProcessStream (sender [ESC, SOF, ESC]) c w = Inr (suspended Await188 [], w)
       \<and> SendSignal SOF (suspended Await188 []) = Inr (suspended Yield191 [])
       \<and> fst (operator_call (suspended Yield191 [])) = []
       \<and> fst (operator_call (suspended Await188 [])) = []
       \<and> ProcessStream (sender [ESC, SOF, ESC, SOF]) c w = Inr (suspended Yield191 [], w)"
  using assms
  by (simp add: ProcessStream_sender body_Idle body_Await179 body_Await184 body_Await188
      SendSignal_Await188 operator_call_def)

theorem empty_frame_not_dispatched_witness:
  "parser_state (suspended Await175 []) = Some Idle \<and> mValue (suspended Await175 []) = []
   \<and> ProcessStream (sender [ESC, SOF, ESC, SOF]) (suspended Await175 [])
       \<lparr>handled = [''Hello''], stdout = ''Hello\<newline>''\<rparr> =
     Inr (suspended Yield191 [], \<lparr>handled = [''Hello''], stdout = ''Hello\<newline>''\<rparr>)"
proof -
  have h1: "parser_state (suspended Await175 []) = Some Idle"
    and h2: "mValue (suspended Await175 []) = []"
    by simp_all
  from empty_frame_not_dispatched
         [OF h1 h2, of "\<lparr>handled = [''Hello''], stdout = ''Hello\<newline>''\<rparr>"] h1 h2
  show ?thesis by blast
qed

end
